theory Spec2Isabelle
  imports Main "HOL-Library.AList" "HOL-Library.Word"
begin

section \<open>Data model of the uploader's main package\<close>

text \<open>
  The development embeds the watch/upload logic of the program's \<open>main\<close> package:
  \<open>checkIgnore\<close>, \<open>reuploadFailedFiles\<close>, \<open>handleUploaderEvents\<close>, \<open>startToWatch\<close>,
  \<open>handleFileChange\<close> and \<open>handleFileSystemEvents\<close>. Global variables of the package
  become fields of a configuration record (the parsed flags) and of a state record
  (everything the functions mutate). The Go runtime and the libraries the package calls
  (timers, the file system, the watcher, the database connection) are modelled by what
  the package observes of them.
\<close>

type_synonym path = string

text \<open>Time is counted in the unit of \<open>time.Duration\<close>; \<open>eventDelay\<close> is a non-negative
  duration (the Go runtime treats a negative one like zero).\<close>

type_synonym time = nat

subsection \<open>File-system notifications\<close>

text \<open>\<open>fsnotify.Op\<close> is an unsigned 32-bit mask; the package compares it with \<open>==\<close> and
  \<open>!=\<close> against single constants.\<close>

type_synonym Op = "32 word"

definition Create :: Op where "Create = 1"
definition Write :: Op where "Write = 2"
definition Remove :: Op where "Remove = 4"
definition Rename :: Op where "Rename = 8"
definition Chmod :: Op where "Chmod = 16"

record event =
  Name :: path
  Op :: Op

subsection \<open>Timers\<close>

text \<open>A \<open>*time.Timer\<close> made by \<open>time.AfterFunc\<close>: armed with a deadline, stopped, or
  expired (its function has been started).\<close>

datatype timer = Armed time | Stopped | Fired

text \<open>\<open>AfterFunc(d, f)\<close> at clock reading \<open>nw\<close>.\<close>

definition AfterFunc :: "time \<Rightarrow> time \<Rightarrow> timer" where
  "AfterFunc nw d = Armed (nw + d)"

text \<open>\<open>t.Stop()\<close> reports whether the call stopped the timer: false when the timer has
  already expired or been stopped.\<close>

fun Stop :: "timer \<Rightarrow> bool \<times> timer" where
  "Stop (Armed d) = (True, Stopped)"
| "Stop Stopped = (False, Stopped)"
| "Stop Fired = (False, Fired)"

text \<open>\<open>t.Reset(d)\<close> at clock reading \<open>nw\<close>.\<close>

definition Reset :: "time \<Rightarrow> time \<Rightarrow> timer \<Rightarrow> timer" where
  "Reset nw d t = Armed (nw + d)"

subsection \<open>The status table\<close>

text \<open>Modelled from the spec: the \<open>models\<close> package (type \<open>File\<close>, constant \<open>FileSuccess\<close>)
  is not among the sources. A file record has a unique path and a status out of
  Pending, Success, Failed, Ignored.\<close>

datatype status = Pending | Success | Failed | Ignored

text \<open>The table behind \<open>orm.GetInstance().Connection\<close>: its rows in insertion order.\<close>

type_synonym table = "(path \<times> status) list"

datatype db_op = Created path | Deleted path

subsection \<open>Configuration, environment and state\<close>

text \<open>The flags. A pattern of \<open>patternsToIgnore\<close> is represented by its \<open>MatchString\<close>
  predicate. \<open>zeroStatus\<close> is the status a freshly created row carries (the zero value
  of the \<open>Status\<close> field, declared outside the sources).\<close>

record config =
  patternsToIgnore :: "(path \<Rightarrow> bool) list"
  watchRecursively :: bool
  eventDelay :: time
  reuploadFailed :: bool
  zeroStatus :: status

text \<open>What the operating system answers. \<open>stat t p\<close> is \<open>os.Stat\<close> at time \<open>t\<close>: \<open>None\<close>
  for an error, otherwise \<open>IsDir()\<close>. \<open>walk t p\<close> is the sequence of entries
  \<open>filepath.Walk\<close> hands to its callback from root \<open>p\<close>, each with its \<open>IsDir()\<close>:
  every entry carries a \<open>FileInfo\<close>. (\<open>Walk\<close> passes a nil \<open>FileInfo\<close> only for a
  root it cannot \<open>Lstat\<close>, and then the callback's \<open>file.IsDir()\<close> panics; the timer
  function walks a path right after \<open>os.Stat\<close> has succeeded on it.)
  \<open>addFails p\<close> tells whether \<open>fsWatcher.Add(p)\<close> returns an error.\<close>

record env =
  stat :: "time \<Rightarrow> path \<Rightarrow> bool option"
  walk :: "time \<Rightarrow> path \<Rightarrow> (path \<times> bool) list"
  addFails :: "path \<Rightarrow> bool"

text \<open>The mutable world: the clock, the global \<open>timers\<close> map (an association list in
  insertion order), the status table with a log of the row creations and deletions
  performed on it, the paths handed to \<open>uploader.EnqueueUpload\<close> (each stamped with
  the clock reading of the call), and the paths added to the watcher.\<close>

record state =
  now :: time
  timers :: "(path \<times> timer) list"
  store :: table
  dbLog :: "db_op list"
  queue :: "(time \<times> path) list"
  watched :: "path list"

section \<open>The functions of the package\<close>

subsection \<open>checkIgnore\<close>

fun checkIgnore :: "(path \<Rightarrow> bool) list \<Rightarrow> path \<Rightarrow> bool" where
  "checkIgnore [] path = False"
| "checkIgnore (pattern # patterns) path =
     (if pattern path then True else checkIgnore patterns path)"

subsection \<open>Database calls\<close>

text \<open>\<open>Where(&models.File{Path: p}).FirstOrCreate(&file)\<close>. The database library
  builds the condition from the non-zero fields of the struct: for a non-empty path it
  finds the first row with that path; for the empty path the condition is empty and it
  finds the first row of the table. When it finds no row it creates one with path
  \<open>p\<close>. The result is the row that \<open>file\<close> holds afterwards, and the new state.\<close>

definition FirstOrCreate :: "config \<Rightarrow> path \<Rightarrow> state \<Rightarrow> (path \<times> status) \<times> state" where
  "FirstOrCreate cfg p s =
     (case (if p = [] then store s else filter (\<lambda>r. fst r = p) (store s)) of
        file # others \<Rightarrow> (file, s)
      | [] \<Rightarrow> ((p, zeroStatus cfg),
               s\<lparr>store := store s @ [(p, zeroStatus cfg)],
                 dbLog := dbLog s @ [Created p]\<rparr>))"

text \<open>\<open>Unscoped().Delete(&file)\<close> removes the one row that \<open>file\<close> holds. (The rows of
  the model carry no key of their own; the row found by \<open>FirstOrCreate\<close> is the first
  row of its content.)\<close>

definition Delete :: "path \<times> status \<Rightarrow> state \<Rightarrow> state" where
  "Delete file s =
     s\<lparr>store := remove1 file (store s), dbLog := dbLog s @ [Deleted (fst file)]\<rparr>"

subsection \<open>EnqueueUpload\<close>

text \<open>Modelled from the spec: \<open>utils.ConcurrentUploader\<close> is not among the sources.
  \<open>enqueue(path)\<close> is accepted unconditionally and queued for processing.\<close>

definition EnqueueUpload :: "path \<Rightarrow> state \<Rightarrow> state" where
  "EnqueueUpload p s = s\<lparr>queue := queue s @ [(now s, p)]\<rparr>"

subsection \<open>handleFileChange\<close>

text \<open>The body of \<open>handleFileChange\<close> without the function the new timer runs (see
  \<open>timerFunc\<close> below): the timer of a path is identified with the path's map entry,
  since an entry is only ever made for a path that has none.\<close>

definition handleFileChange :: "config \<Rightarrow> event \<Rightarrow> state \<Rightarrow> state" where
  "handleFileChange cfg ev s =
     (case map_of (timers s) (Name ev) of
        Some timer \<Rightarrow>
          (case Stop timer of
             (cancelled, timer') \<Rightarrow>
               if cancelled \<and> Op ev \<noteq> Remove \<and> Op ev \<noteq> Rename
               then s\<lparr>timers := AList.update (Name ev)
                                   (Reset (now s) (eventDelay cfg) timer') (timers s)\<rparr>
               else s\<lparr>timers := AList.update (Name ev) timer' (timers s)\<rparr>)
      | None \<Rightarrow>
          if Op ev \<noteq> Remove \<and> Op ev \<noteq> Rename
          then s\<lparr>timers := AList.update (Name ev)
                              (AfterFunc (now s) (eventDelay cfg)) (timers s)\<rparr>
          else if Op ev = Rename \<or> Op ev = Remove
          then (if \<not> checkIgnore (patternsToIgnore cfg) (Name ev)
                then (case FirstOrCreate cfg (Name ev) s of (file, s1) \<Rightarrow> Delete file s1)
                else s)
          else s)"

subsection \<open>startToWatch\<close>

text \<open>The callback that \<open>startToWatch\<close> gives to \<open>filepath.Walk\<close>, run over the entries
  of the walk: a directory that matches no ignore pattern is added to the watcher, an
  error of \<open>Add\<close> ends the walk. The result is the error flag and the watched paths.\<close>

fun walkFunc :: "config \<Rightarrow> env \<Rightarrow> (path \<times> bool) list \<Rightarrow> path list \<Rightarrow> bool \<times> path list" where
  "walkFunc cfg e [] w = (False, w)"
| "walkFunc cfg e ((path, isDir) # entries) w =
     (if isDir \<and> \<not> checkIgnore (patternsToIgnore cfg) path
      then (if addFails e path then (True, w) else walkFunc cfg e entries (w @ [path]))
      else walkFunc cfg e entries w)"

definition startToWatch :: "config \<Rightarrow> env \<Rightarrow> path \<Rightarrow> state \<Rightarrow> bool \<times> state" where
  "startToWatch cfg e filePath s =
     (if watchRecursively cfg
      then (case walkFunc cfg e (walk e (now s) filePath) (watched s) of
              (err, w) \<Rightarrow> (err, s\<lparr>watched := w\<rparr>))
      else if addFails e filePath then (True, s)
      else (False, s\<lparr>watched := watched s @ [filePath]\<rparr>))"

subsection \<open>The function of a debounce timer\<close>

text \<open>The closure that \<open>handleFileChange\<close> passes to \<open>time.AfterFunc\<close>, for the path
  \<open>name\<close> of the notification that created the timer. The error of \<open>startToWatch\<close> is
  dropped, as in the source.\<close>

definition timerFunc :: "config \<Rightarrow> env \<Rightarrow> path \<Rightarrow> state \<Rightarrow> state" where
  "timerFunc cfg e name s =
     (case stat e (now s) name of
        None \<Rightarrow> s
      | Some isDir \<Rightarrow>
          if \<not> isDir \<and> \<not> checkIgnore (patternsToIgnore cfg) name
          then EnqueueUpload name s
          else if watchRecursively cfg
          then snd (startToWatch cfg e name s)
          else s)"

subsection \<open>reuploadFailedFiles\<close>

text \<open>Modelled from the spec: the query \<open>Not(models.File{Status: models.FileSuccess}).Find\<close>
  runs in the database library, on a type and a constant declared outside the sources.
  \<open>listNotSuccess()\<close> returns all records whose status is not Success.\<close>

definition listNotSuccess :: "table \<Rightarrow> (path \<times> status) list" where
  "listNotSuccess rows = filter (\<lambda>f. snd f \<noteq> Success) rows"

definition reuploadFailedFiles :: "config \<Rightarrow> state \<Rightarrow> state" where
  "reuploadFailedFiles cfg s =
     (if reuploadFailed cfg
      then fold (\<lambda>f. EnqueueUpload (fst f)) (listNotSuccess (store s)) s
      else s)"

subsection \<open>The runtime: timers firing as time passes\<close>

text \<open>The armed timers whose deadline is at most \<open>t\<close>, each with its deadline.\<close>

fun dueTimers :: "time \<Rightarrow> (path \<times> timer) list \<Rightarrow> (time \<times> path) list" where
  "dueTimers t [] = []"
| "dueTimers t ((p, Armed d) # ts) =
     (if d \<le> t then (d, p) # dueTimers t ts else dueTimers t ts)"
| "dueTimers t ((p, Stopped) # ts) = dueTimers t ts"
| "dueTimers t ((p, Fired) # ts) = dueTimers t ts"

text \<open>The timer of path \<open>p\<close> expires at its deadline \<open>d\<close>: it is marked expired and its
  function runs at that clock reading.\<close>

definition fireTimer :: "config \<Rightarrow> env \<Rightarrow> time \<times> path \<Rightarrow> state \<Rightarrow> state" where
  "fireTimer cfg e dp s =
     timerFunc cfg e (snd dp)
       (s\<lparr>now := fst dp, timers := AList.update (snd dp) Fired (timers s)\<rparr>)"

text \<open>Time passes until \<open>t\<close>: the due timers fire in the order of their deadlines.\<close>

definition advance :: "config \<Rightarrow> env \<Rightarrow> time \<Rightarrow> state \<Rightarrow> state" where
  "advance cfg e t s =
     (fold (fireTimer cfg e) (sort_key fst (dueTimers t (timers s))) s)\<lparr>now := t\<rparr>"

text \<open>A run of the watcher: each notification is handled at its arrival time, after the
  timers due by then have fired.\<close>

fun run :: "config \<Rightarrow> env \<Rightarrow> (time \<times> event) list \<Rightarrow> state \<Rightarrow> state" where
  "run cfg e [] s = s"
| "run cfg e ((t, ev) # evs) s = run cfg e evs (handleFileChange cfg ev (advance cfg e t s))"

text \<open>The upload signals of one path, with their times.\<close>

definition uploadsOf :: "path \<Rightarrow> state \<Rightarrow> (time \<times> path) list" where
  "uploadsOf p s = filter (\<lambda>x. snd x = p) (queue s)"

text \<open>A burst for path \<open>p\<close> after a notification for \<open>p\<close> at time \<open>t0\<close>, within a
  stream of notifications: each notification for \<open>p\<close> is a write or create and comes
  less than \<open>D\<close> after the one for \<open>p\<close> before it; notifications for other paths
  may arrive in between, while the timer of \<open>p\<close> is pending.\<close>

fun burst :: "time \<Rightarrow> path \<Rightarrow> time \<Rightarrow> (time \<times> event) list \<Rightarrow> bool" where
  "burst D p t0 [] = True"
| "burst D p t0 ((t, ev) # evs) =
     (if Name ev = p
      then t0 \<le> t \<and> t < t0 + D \<and> (Op ev = Write \<or> Op ev = Create) \<and> burst D p t evs
      else t < t0 + D \<and> burst D p t0 evs)"

text \<open>The time of the last notification for \<open>p\<close> in a burst that started at \<open>t\<close>.\<close>

definition lastTime :: "path \<Rightarrow> time \<Rightarrow> (time \<times> event) list \<Rightarrow> time" where
  "lastTime p t evs = last (t # map fst (filter (\<lambda>x. Name (snd x) = p) evs))"

text \<open>At time \<open>t\<close> the timer of \<open>p\<close> is neither expired nor cancelled: the map has no entry
  for \<open>p\<close>, or the entry is armed with a deadline after \<open>t\<close>.\<close>

definition notExpired :: "path \<Rightarrow> time \<Rightarrow> state \<Rightarrow> bool" where
  "notExpired p t s =
     (case map_of (timers s) p of
        None \<Rightarrow> True
      | Some (Armed d) \<Rightarrow> t < d
      | Some Stopped \<Rightarrow> False
      | Some Fired \<Rightarrow> False)"

subsection \<open>The consumer loops\<close>

text \<open>A loop of the form \<open>for { select { ... } }\<close>, run on the messages it receives in
  the order the \<open>select\<close> picks them: either the function returns, leaving the later
  messages unreceived, or it has received them all and waits in \<open>select\<close>.\<close>

datatype ('s, 'm) loop = Returned 's "'m list" | Waiting 's

datatype uploaderMsg = CompletedUpload string | IgnoredUpload string | UploadError string | Exiting

text \<open>The statistics counters, and the number of acknowledgements sent on \<open>exiting\<close>.\<close>

record counters =
  uploadedFilesCount :: nat
  ignoredCount :: nat
  errorsCount :: nat
  acks :: nat

text \<open>\<open>handleUploaderEvents\<close>. In the \<open>exiting\<close> case the \<open>break\<close> leaves the \<open>select\<close>
  statement it stands in, so the \<open>for\<close> loop goes on.\<close>

fun handleUploaderEvents :: "uploaderMsg list \<Rightarrow> counters \<Rightarrow> (counters, uploaderMsg) loop" where
  "handleUploaderEvents [] c = Waiting c"
| "handleUploaderEvents (CompletedUpload info # ms) c =
     handleUploaderEvents ms (c\<lparr>uploadedFilesCount := uploadedFilesCount c + 1\<rparr>)"
| "handleUploaderEvents (IgnoredUpload info # ms) c =
     handleUploaderEvents ms (c\<lparr>ignoredCount := ignoredCount c + 1\<rparr>)"
| "handleUploaderEvents (UploadError err # ms) c =
     handleUploaderEvents ms (c\<lparr>errorsCount := errorsCount c + 1\<rparr>)"
| "handleUploaderEvents (Exiting # ms) c =
     handleUploaderEvents ms (c\<lparr>acks := acks c + 1\<rparr>)"

datatype watcherMsg = FsEvent event | FsError | FsExiting

text \<open>\<open>handleFileSystemEvents\<close>, with the number of acknowledgements it has sent. In
  the \<open>exiting\<close> case it acknowledges and returns.\<close>

fun handleFileSystemEvents ::
  "config \<Rightarrow> watcherMsg list \<Rightarrow> state \<times> nat \<Rightarrow> (state \<times> nat, watcherMsg) loop" where
  "handleFileSystemEvents cfg [] sa = Waiting sa"
| "handleFileSystemEvents cfg (FsEvent ev # ms) (s, a) =
     handleFileSystemEvents cfg ms (handleFileChange cfg ev s, a)"
| "handleFileSystemEvents cfg (FsError # ms) sa = handleFileSystemEvents cfg ms sa"
| "handleFileSystemEvents cfg (FsExiting # ms) (s, a) = Returned (s, a + 1) ms"

section \<open>The upload worker pool\<close>

text \<open>Modelled from the spec: the worker pool (\<open>utils.ConcurrentUploader\<close>) is not among
  the sources. The model follows the processing steps the specification lists for one
  dequeued path, over the pool's view of the status table, a log of the writes made to
  it, the invocations of the external upload operation, and the outcomes emitted.\<close>

datatype outcome = Completed path | Ignoredp path | Errored path

datatype store_write = UpsertPending path | RecordOutcome path status

record pool =
  records :: table
  writes :: "store_write list"
  uploads :: "path list"
  outcomes :: "outcome list"

text \<open>Modelled from the spec: \<open>upsertPending(path)\<close> creates the record if absent and
  does not touch the status of a present one.\<close>

definition upsertPending :: "path \<Rightarrow> pool \<Rightarrow> pool" where
  "upsertPending p w =
     (case map_of (records w) p of
        Some st \<Rightarrow> w
      | None \<Rightarrow> w\<lparr>records := records w @ [(p, Pending)],
                  writes := writes w @ [UpsertPending p]\<rparr>)"

text \<open>Modelled from the spec: \<open>recordOutcome(path, status)\<close> sets the status
  unconditionally.\<close>

definition recordOutcome :: "path \<Rightarrow> status \<Rightarrow> pool \<Rightarrow> pool" where
  "recordOutcome p st w =
     w\<lparr>records := AList.update p st (records w),
       writes := writes w @ [RecordOutcome p st]\<rparr>"

definition emit :: "outcome \<Rightarrow> pool \<Rightarrow> pool" where
  "emit x w = w\<lparr>outcomes := outcomes w @ [x]\<rparr>"

text \<open>Modelled from the spec: the processing of one dequeued path (steps 1 to 6).
  \<open>eligible p\<close> is the check of step 1 (the file exists and no ignore pattern excludes
  it); \<open>upload p\<close> tells whether the external upload operation succeeds.\<close>

definition processPath :: "(path \<Rightarrow> bool) \<Rightarrow> (path \<Rightarrow> bool) \<Rightarrow> path \<Rightarrow> pool \<Rightarrow> pool" where
  "processPath eligible upload p w =
     (if \<not> eligible p then emit (Ignoredp p) w
      else if map_of (records w) p = Some Success then emit (Ignoredp p) w
      else (case upsertPending p w of w1 \<Rightarrow>
            case w1\<lparr>uploads := uploads w1 @ [p]\<rparr> of w2 \<Rightarrow>
              if upload p then emit (Completed p) (recordOutcome p Success w2)
              else emit (Errored p) (recordOutcome p Failed w2)))"

text \<open>The status-setting writes (\<open>recordOutcome\<close>) among the writes of a log.\<close>

fun isStatusWrite :: "store_write \<Rightarrow> bool" where
  "isStatusWrite (RecordOutcome p st) = True"
| "isStatusWrite (UpsertPending p) = False"

section \<open>Concrete inputs\<close>

text \<open>A configuration with the flags' defaults, a file system in which every path is a
  regular file, and the state at start-up.\<close>

definition cfg0 :: config where
  "cfg0 = \<lparr>patternsToIgnore = [], watchRecursively = True, eventDelay = 3,
           reuploadFailed = True, zeroStatus = Pending\<rparr>"

definition env0 :: env where
  "env0 = \<lparr>stat = (\<lambda>t p. Some False), walk = (\<lambda>t p. [(p, False)]), addFails = (\<lambda>p. False)\<rparr>"

definition s0 :: state where
  "s0 = \<lparr>now = 0, timers = [], store = [], dbLog = [], queue = [], watched = []\<rparr>"

definition written :: "path \<Rightarrow> event" where
  "written p = \<lparr>Name = p, Op = Write\<rparr>"

definition removed :: "path \<Rightarrow> event" where
  "removed p = \<lparr>Name = p, Op = Remove\<rparr>"

section \<open>Notifications for ignored paths\<close>

lemma handleFileChange_store_entry:
  assumes "map_of (timers s) (Name ev) = Some t"
  shows "store (handleFileChange cfg ev s) = store s \<and>
         dbLog (handleFileChange cfg ev s) = dbLog s \<and>
         queue (handleFileChange cfg ev s) = queue s"
  using assms by (simp add: handleFileChange_def split: prod.split)

text \<open>
  C10. A remove or rename notification whose path matches a configured ignore pattern
  leaves the status table exactly as it was: no row is created, no row is deleted, and
  nothing is logged against the table.
\<close>

theorem C10_ignored_removal_keeps_store:
  assumes "Op ev = Remove \<or> Op ev = Rename"
    and "checkIgnore (patternsToIgnore cfg) (Name ev)"
  shows "store (handleFileChange cfg ev s) = store s \<and>
         dbLog (handleFileChange cfg ev s) = dbLog s"
proof (cases "map_of (timers s) (Name ev)")
  case None
  with assms show ?thesis
    by (auto simp: handleFileChange_def)
next
  case (Some t)
  then show ?thesis
    using handleFileChange_store_entry by blast
qed

theorem C10_witness:
  "store (handleFileChange
      \<lparr>patternsToIgnore = [\<lambda>p. p = ''/w/a.tmp''], watchRecursively = True, eventDelay = 3,
        reuploadFailed = False, zeroStatus = Pending\<rparr>
      \<lparr>Name = ''/w/a.tmp'', Op = Remove\<rparr>
      \<lparr>now = 7, timers = [], store = [(''/w/a.tmp'', Success)], dbLog = [],
        queue = [], watched = []\<rparr>) = [(''/w/a.tmp'', Success)]"
  using C10_ignored_removal_keeps_store
    [of "\<lparr>Name = ''/w/a.tmp'', Op = Remove\<rparr>"
        "\<lparr>patternsToIgnore = [\<lambda>p. p = ''/w/a.tmp''], watchRecursively = True, eventDelay = 3,
          reuploadFailed = False, zeroStatus = Pending\<rparr>"
        "\<lparr>now = 7, timers = [], store = [(''/w/a.tmp'', Success)], dbLog = [],
          queue = [], watched = []\<rparr>"]
  by simp

section \<open>Removal while a debounce timer is pending\<close>

lemma ops_distinct:
  "Write \<noteq> Remove" "Write \<noteq> Rename" "Create \<noteq> Remove" "Create \<noteq> Rename"
  "Remove \<noteq> Rename"
  by (simp_all add: Write_def Remove_def Rename_def Create_def)

text \<open>
  C1. The specification says that a remove or rename notification that arrives while
  the debounce timer of its path is pending cancels the timer, leads to no upload
  signal, and deletes the path's record once. In the source the first branch of
  \<open>handleFileChange\<close> handles every notification for a path that has a timer: it
  stops the timer and returns. The table is not touched: the record is not deleted,
  and the log of table operations stays as it was. Only the timer changes, from armed
  to stopped.
\<close>

theorem C1_removal_during_pending_timer:
  assumes "map_of (timers s) (Name ev) = Some (Armed d)"
    and "Op ev = Remove \<or> Op ev = Rename"
  shows "handleFileChange cfg ev s = s\<lparr>timers := AList.update (Name ev) Stopped (timers s)\<rparr>"
  using assms by (auto simp: handleFileChange_def)

theorem C1_witness:
  "handleFileChange cfg0 (removed ''/w/a.jpg'')
     \<lparr>now = 2, timers = [(''/w/a.jpg'', Armed 3)], store = [(''/w/a.jpg'', Success)],
       dbLog = [], queue = [], watched = []\<rparr>
   = \<lparr>now = 2, timers = [(''/w/a.jpg'', Stopped)], store = [(''/w/a.jpg'', Success)],
       dbLog = [], queue = [], watched = []\<rparr>"
  using C1_removal_during_pending_timer
    [of "\<lparr>now = 2, timers = [(''/w/a.jpg'', Armed 3)], store = [(''/w/a.jpg'', Success)],
          dbLog = [], queue = [], watched = []\<rparr>" "removed ''/w/a.jpg''" 3 cfg0]
  by (simp add: removed_def)

section \<open>Removal of a path whose timer is not pending\<close>

lemma forget_frame:
  "timers (case FirstOrCreate cfg p s of (file, s1) \<Rightarrow> Delete file s1) = timers s \<and>
   queue (case FirstOrCreate cfg p s of (file, s1) \<Rightarrow> Delete file s1) = queue s \<and>
   now (case FirstOrCreate cfg p s of (file, s1) \<Rightarrow> Delete file s1) = now s \<and>
   watched (case FirstOrCreate cfg p s of (file, s1) \<Rightarrow> Delete file s1) = watched s"
  by (simp add: FirstOrCreate_def Delete_def split: list.split)

text \<open>
  C9. The specification says that a remove or rename notification for a path that
  matches no ignore pattern and has no pending timer leaves the table without a record
  for that path. In the source the first branch of \<open>handleFileChange\<close> handles every
  notification for a path that has an entry in the timer map, and entries are never
  removed: when the timer of the path has expired (or has been cancelled) no timer is
  pending, yet the notification takes the first branch, \<open>Stop()\<close> reports false, and
  the function returns. The table and its log stay as they were, and the record is
  not deleted. The witness is the run with a write at time 0, the settle at time 3 and
  the remove at time 6.
\<close>

theorem C9_removal_after_settle:
  assumes "map_of (timers s) (Name ev) = Some Fired \<or> map_of (timers s) (Name ev) = Some Stopped"
    and "Op ev = Remove \<or> Op ev = Rename"
  shows "store (handleFileChange cfg ev s) = store s \<and>
         dbLog (handleFileChange cfg ev s) = dbLog s"
  using assms(1) by (auto simp: handleFileChange_def)

theorem C9_witness:
  "timers (advance cfg0 env0 6
     (run cfg0 env0 [(0, written ''/w/a.jpg'')] (s0\<lparr>store := [(''/w/a.jpg'', Success)]\<rparr>)))
     = [(''/w/a.jpg'', Fired)] \<and>
   store (run cfg0 env0 [(0, written ''/w/a.jpg''), (6, removed ''/w/a.jpg'')]
     (s0\<lparr>store := [(''/w/a.jpg'', Success)]\<rparr>)) = [(''/w/a.jpg'', Success)] \<and>
   dbLog (run cfg0 env0 [(0, written ''/w/a.jpg''), (6, removed ''/w/a.jpg'')]
     (s0\<lparr>store := [(''/w/a.jpg'', Success)]\<rparr>)) = []"
  using C9_removal_after_settle
    [of "advance cfg0 env0 6
          (run cfg0 env0 [(0, written ''/w/a.jpg'')] (s0\<lparr>store := [(''/w/a.jpg'', Success)]\<rparr>))"
        "removed ''/w/a.jpg''" cfg0]
  by (simp add: cfg0_def env0_def s0_def written_def removed_def advance_def fireTimer_def
      timerFunc_def handleFileChange_def EnqueueUpload_def AfterFunc_def Reset_def
      Write_def Remove_def Rename_def)

subsection \<open>The last branch: a path without a timer entry\<close>

text \<open>Where the notification reaches the last branch, the deletion is as the
  specification describes it, for a non-empty path in a table with at most one record
  per path: the record of the path is gone, whether or not there was one, the other
  records are unchanged, and a second notification changes nothing more.\<close>

lemma filter_other_rows:
  "p \<notin> fst ` set rows \<Longrightarrow> filter (\<lambda>r. fst r \<noteq> p) rows = rows"
  by (induction rows) auto

lemma remove1_row:
  "distinct (map fst rows) \<Longrightarrow> r \<in> set rows \<Longrightarrow>
     remove1 r rows = filter (\<lambda>x. fst x \<noteq> fst r) rows"
proof (induction rows)
  case Nil
  then show ?case by simp
next
  case (Cons x rows)
  show ?case
  proof (cases "x = r")
    case True
    with Cons.prems(1) have "fst r \<notin> fst ` set rows" by auto
    then have "filter (\<lambda>x. fst x \<noteq> fst r) rows = rows"
      by (rule filter_other_rows)
    with True show ?thesis by simp
  next
    case False
    with Cons.prems(2) have r: "r \<in> set rows" by simp
    then have inr: "fst r \<in> fst ` set rows" by (rule imageI)
    from Cons.prems(1) have "fst x \<notin> fst ` set rows" by simp
    with inr have "fst x \<noteq> fst r" by metis
    with False Cons.IH r Cons.prems(1) show ?thesis by simp
  qed
qed

lemma removal_untracked_store:
  assumes "map_of (timers s) (Name ev) = None"
    and "Op ev = Remove \<or> Op ev = Rename"
    and "\<not> checkIgnore (patternsToIgnore cfg) (Name ev)"
    and "distinct (map fst (store s))"
    and "Name ev \<noteq> []"
  shows "store (handleFileChange cfg ev s) = filter (\<lambda>r. fst r \<noteq> Name ev) (store s)"
proof (cases "filter (\<lambda>r. fst r = Name ev) (store s)")
  case Nil
  then have absent: "Name ev \<notin> fst ` set (store s)"
    by (auto simp: filter_empty_conv)
  then have "filter (\<lambda>r. fst r \<noteq> Name ev) (store s) = store s"
    by (rule filter_other_rows)
  moreover from absent have "(Name ev, zeroStatus cfg) \<notin> set (store s)"
    by force
  ultimately show ?thesis
    using assms Nil
    by (auto simp: handleFileChange_def FirstOrCreate_def Delete_def remove1_append)
next
  case (Cons r rs)
  then have "r \<in> set (filter (\<lambda>r. fst r = Name ev) (store s))"
    by simp
  then have r: "r \<in> set (store s)" and nm: "fst r = Name ev"
    by simp_all
  have "remove1 r (store s) = filter (\<lambda>x. fst x \<noteq> Name ev) (store s)"
    using remove1_row[OF assms(4) r] nm by simp
  then show ?thesis
    using assms Cons
    by (auto simp: handleFileChange_def FirstOrCreate_def Delete_def)
qed

lemma removal_untracked_timers:
  assumes "map_of (timers s) (Name ev) = None"
    and "Op ev = Remove \<or> Op ev = Rename"
  shows "timers (handleFileChange cfg ev s) = timers s"
  using assms
  by (auto simp: handleFileChange_def forget_frame)

lemma removal_untracked_idempotent:
  assumes "map_of (timers s) p = None" and "p \<noteq> []"
    and "Name ev = p" and "Op ev = Remove \<or> Op ev = Rename"
    and "Name ev' = p" and "Op ev' = Remove \<or> Op ev' = Rename"
    and "\<not> checkIgnore (patternsToIgnore cfg) p"
    and "distinct (map fst (store s))"
  shows "store (handleFileChange cfg ev s) = filter (\<lambda>r. fst r \<noteq> p) (store s) \<and>
         map_of (store (handleFileChange cfg ev s)) p = None \<and>
         store (handleFileChange cfg ev' (handleFileChange cfg ev s)) =
           store (handleFileChange cfg ev s)"
proof -
  let ?s1 = "handleFileChange cfg ev s"
  have st1: "store ?s1 = filter (\<lambda>r. fst r \<noteq> p) (store s)"
    using removal_untracked_store[of s ev cfg] assms by simp
  have gone: "map_of (store ?s1) p = None"
    unfolding st1 by (auto simp: map_of_eq_None_iff)
  have tm1: "map_of (timers ?s1) (Name ev') = None"
    using removal_untracked_timers[of s ev cfg] assms by simp
  have d1: "distinct (map fst (store ?s1))"
    unfolding st1 using assms(8) by (simp add: distinct_map_filter)
  have "store (handleFileChange cfg ev' ?s1) = filter (\<lambda>r. fst r \<noteq> p) (store ?s1)"
    using removal_untracked_store[of ?s1 ev' cfg] tm1 d1 assms by simp
  also have "\<dots> = store ?s1"
    unfolding st1 by simp
  finally show ?thesis using st1 gone by simp
qed

text \<open>For the empty path the condition of the query is empty: the first row of the
  table is found and deleted, whatever its path.\<close>

lemma removal_empty_name:
  "store (handleFileChange cfg0 (removed [])
            (s0\<lparr>store := [(''/w/b.jpg'', Success), (''/w/a.jpg'', Failed)]\<rparr>))
     = [(''/w/a.jpg'', Failed)]"
  by (simp add: handleFileChange_def FirstOrCreate_def Delete_def cfg0_def s0_def removed_def)

section \<open>The retry scan\<close>

lemma fold_EnqueueUpload:
  "fold (\<lambda>f. EnqueueUpload (fst f)) fs s =
     s\<lparr>queue := queue s @ map (\<lambda>f. (now s, fst f)) fs\<rparr>"
  by (induction fs arbitrary: s) (simp_all add: EnqueueUpload_def)

text \<open>
  C3. When the retry scan is requested, \<open>reuploadFailedFiles\<close> enqueues exactly the
  paths of the records whose status is not Success, in table order, and changes no
  record. The witness is the scan over the records A:Success, B:Failed, C:Pending,
  which enqueues B and C and leaves the table as it was.
\<close>

theorem C3_retry_scan:
  assumes "reuploadFailed cfg"
  shows "map snd (queue (reuploadFailedFiles cfg s)) =
           map snd (queue s) @ map fst (filter (\<lambda>f. snd f \<noteq> Success) (store s)) \<and>
         store (reuploadFailedFiles cfg s) = store s \<and>
         dbLog (reuploadFailedFiles cfg s) = dbLog s"
  using assms
  by (simp add: reuploadFailedFiles_def listNotSuccess_def fold_EnqueueUpload comp_def)

theorem C3_witness:
  "map snd (queue (reuploadFailedFiles cfg0
      (s0\<lparr>store := [(''A'', Success), (''B'', Failed), (''C'', Pending)]\<rparr>))) = [''B'', ''C''] \<and>
   store (reuploadFailedFiles cfg0
      (s0\<lparr>store := [(''A'', Success), (''B'', Failed), (''C'', Pending)]\<rparr>)) =
     [(''A'', Success), (''B'', Failed), (''C'', Pending)]"
  using C3_retry_scan [of cfg0 "s0\<lparr>store := [(''A'', Success), (''B'', Failed), (''C'', Pending)]\<rparr>"]
  by (simp add: cfg0_def s0_def)

section \<open>The stop signal of the outcome reporter\<close>

lemma handleUploaderEvents_never_returns: "\<exists>c'. handleUploaderEvents ms c = Waiting c'"
  by (induction ms c rule: handleUploaderEvents.induct) simp_all

lemma handleFileSystemEvents_returns:
  "handleFileSystemEvents cfg (FsExiting # ms) (s, a) = Returned (s, a + 1) ms"
  by simp

text \<open>
  C7. The specification says that on the stop signal the consumer loop of the outcome
  reporter acknowledges and then terminates, consuming no further outcome. In the
  source the \<open>break\<close> of the \<open>exiting\<close> case ends the \<open>select\<close> statement only:
  after the acknowledgement the loop receives the next completed upload and counts
  it, acknowledges a second stop signal, and has still not returned.
  (\<open>handleFileSystemEvents\<close> returns in the same case.)
\<close>

theorem C7_reporter_keeps_consuming:
  "handleUploaderEvents [Exiting, CompletedUpload ''a.jpg'', Exiting]
     \<lparr>uploadedFilesCount = 0, ignoredCount = 0, errorsCount = 0, acks = 0\<rparr> =
   Waiting \<lparr>uploadedFilesCount = 1, ignoredCount = 0, errorsCount = 0, acks = 2\<rparr>"
  by simp

section \<open>Deduplication in the worker pool\<close>

lemma processPath_Success:
  "map_of (records w) p = Some Success \<Longrightarrow>
     processPath eligible upload p w = emit (Ignoredp p) w"
  by (simp add: processPath_def)

lemma processPath_first:
  assumes "eligible p" "upload p" "map_of (records w) p \<noteq> Some Success"
  shows "processPath eligible upload p w =
           emit (Completed p) (recordOutcome p Success
             ((upsertPending p w)\<lparr>uploads := uploads (upsertPending p w) @ [p]\<rparr>))"
  using assms by (simp add: processPath_def)

text \<open>
  C4. For a path whose record has status Success, processing an enqueued upload of it
  emits one ignored outcome and nothing else: the upload operation is not invoked, and
  the table and its write log stay as they were. So when a first enqueue of an eligible
  path uploads it successfully, two further enqueues of the path give two ignored
  outcomes, one invocation of the upload operation in all, no write beyond those of
  the first processing, and exactly one status-setting write in total.
\<close>

theorem C4_dedup:
  "(map_of (records w) p = Some Success \<longrightarrow>
      outcomes (processPath eligible upload p w) = outcomes w @ [Ignoredp p] \<and>
      uploads (processPath eligible upload p w) = uploads w \<and>
      writes (processPath eligible upload p w) = writes w \<and>
      records (processPath eligible upload p w) = records w) \<and>
   (eligible p \<and> upload p \<and> map_of (records w) p \<noteq> Some Success \<longrightarrow>
      outcomes (processPath eligible upload p (processPath eligible upload p
                 (processPath eligible upload p w))) =
        outcomes w @ [Completed p, Ignoredp p, Ignoredp p] \<and>
      uploads (processPath eligible upload p (processPath eligible upload p
                 (processPath eligible upload p w))) = uploads w @ [p] \<and>
      writes (processPath eligible upload p (processPath eligible upload p
                 (processPath eligible upload p w))) =
        writes (processPath eligible upload p w) \<and>
      filter isStatusWrite (writes (processPath eligible upload p w)) =
        filter isStatusWrite (writes w) @ [RecordOutcome p Success])"
proof (intro conjI impI)
  assume "map_of (records w) p = Some Success"
  then have eq: "processPath eligible upload p w = emit (Ignoredp p) w"
    by (rule processPath_Success)
  show "outcomes (processPath eligible upload p w) = outcomes w @ [Ignoredp p]"
    and "uploads (processPath eligible upload p w) = uploads w"
    and "writes (processPath eligible upload p w) = writes w"
    and "records (processPath eligible upload p w) = records w"
    unfolding eq by (simp_all add: emit_def)
next
  assume a: "eligible p \<and> upload p \<and> map_of (records w) p \<noteq> Some Success"
  let ?w1 = "processPath eligible upload p w"
  have first: "?w1 = emit (Completed p) (recordOutcome p Success
             ((upsertPending p w)\<lparr>uploads := uploads (upsertPending p w) @ [p]\<rparr>))"
    using a by (simp add: processPath_first)
  have done1: "map_of (records ?w1) p = Some Success"
    unfolding first by (simp add: emit_def recordOutcome_def update_conv')
  have second: "processPath eligible upload p ?w1 = emit (Ignoredp p) ?w1"
    using done1 by (rule processPath_Success)
  have done2: "map_of (records (emit (Ignoredp p) ?w1)) p = Some Success"
    using done1 by (simp add: emit_def)
  have third: "processPath eligible upload p (processPath eligible upload p ?w1) =
      emit (Ignoredp p) (emit (Ignoredp p) ?w1)"
    unfolding second using done2 by (rule processPath_Success)
  have o1: "outcomes ?w1 = outcomes w @ [Completed p]"
    unfolding first
    by (simp add: emit_def recordOutcome_def upsertPending_def split: option.split)
  have u1: "uploads ?w1 = uploads w @ [p]"
    unfolding first
    by (simp add: emit_def recordOutcome_def upsertPending_def split: option.split)
  show "outcomes (processPath eligible upload p (processPath eligible upload p ?w1)) =
        outcomes w @ [Completed p, Ignoredp p, Ignoredp p]"
    unfolding third using o1 by (simp add: emit_def)
  show "uploads (processPath eligible upload p (processPath eligible upload p ?w1)) =
        uploads w @ [p]"
    unfolding third using u1 by (simp add: emit_def)
  show "writes (processPath eligible upload p (processPath eligible upload p ?w1)) =
        writes ?w1"
    unfolding third by (simp add: emit_def)
  show "filter isStatusWrite (writes ?w1) =
        filter isStatusWrite (writes w) @ [RecordOutcome p Success]"
    unfolding first
    by (simp add: emit_def recordOutcome_def upsertPending_def split: option.split)
qed

theorem C4_witness:
  "outcomes (processPath (\<lambda>p. True) (\<lambda>p. True) ''/w/a.jpg''
     \<lparr>records = [(''/w/a.jpg'', Success)], writes = [RecordOutcome ''/w/a.jpg'' Success],
       uploads = [''/w/a.jpg''], outcomes = [Completed ''/w/a.jpg'']\<rparr>) =
     [Completed ''/w/a.jpg'', Ignoredp ''/w/a.jpg''] \<and>
   writes (processPath (\<lambda>p. True) (\<lambda>p. True) ''/w/a.jpg''
     (processPath (\<lambda>p. True) (\<lambda>p. True) ''/w/a.jpg''
       (processPath (\<lambda>p. True) (\<lambda>p. True) ''/w/a.jpg''
          \<lparr>records = [], writes = [], uploads = [], outcomes = []\<rparr>))) =
     [UpsertPending ''/w/a.jpg'', RecordOutcome ''/w/a.jpg'' Success]"
  using C4_dedup [of "\<lparr>records = [(''/w/a.jpg'', Success)],
        writes = [RecordOutcome ''/w/a.jpg'' Success],
        uploads = [''/w/a.jpg''], outcomes = [Completed ''/w/a.jpg'']\<rparr>" "''/w/a.jpg''"
        "\<lambda>p. True" "\<lambda>p. True"]
    C4_dedup [of "\<lparr>records = [], writes = [], uploads = [], outcomes = []\<rparr>" "''/w/a.jpg''"
        "\<lambda>p. True" "\<lambda>p. True"]
  by (simp add: processPath_def emit_def recordOutcome_def upsertPending_def)

section \<open>The function of a debounce timer\<close>









section \<open>Timers firing as time passes\<close>

lemma uploadsOf_now [simp]: "uploadsOf p (s\<lparr>now := t\<rparr>) = uploadsOf p s"
  by (simp add: uploadsOf_def)

lemma uploadsOf_timers [simp]: "uploadsOf p (s\<lparr>timers := ts\<rparr>) = uploadsOf p s"
  by (simp add: uploadsOf_def)

lemma startToWatch_frame:
  "timers (snd (startToWatch cfg e n s)) = timers s \<and>
   queue (snd (startToWatch cfg e n s)) = queue s \<and>
   now (snd (startToWatch cfg e n s)) = now s"
  by (simp add: startToWatch_def split: prod.split)

lemma timerFunc_timers: "timers (timerFunc cfg e n s) = timers s"
  by (simp add: timerFunc_def EnqueueUpload_def startToWatch_frame split: option.split)

lemma timerFunc_uploads_other:
  "n \<noteq> p \<Longrightarrow> uploadsOf p (timerFunc cfg e n s) = uploadsOf p s"
  by (simp add: timerFunc_def EnqueueUpload_def startToWatch_frame uploadsOf_def
      split: option.split)

lemma timerFunc_uploads_settled:
  "stat e (now s) p = Some False \<Longrightarrow> \<not> checkIgnore (patternsToIgnore cfg) p \<Longrightarrow>
     uploadsOf p (timerFunc cfg e p s) = uploadsOf p s @ [(now s, p)]"
  by (simp add: timerFunc_def EnqueueUpload_def uploadsOf_def)

lemma fireTimer_timers:
  "timers (fireTimer cfg e dp s) = AList.update (snd dp) Fired (timers s)"
  by (simp add: fireTimer_def timerFunc_timers)

lemma fireTimer_uploads_other:
  "snd dp \<noteq> p \<Longrightarrow> uploadsOf p (fireTimer cfg e dp s) = uploadsOf p s"
  by (simp add: fireTimer_def timerFunc_uploads_other)

lemma fireTimer_uploads_settled:
  "stat e d p = Some False \<Longrightarrow> \<not> checkIgnore (patternsToIgnore cfg) p \<Longrightarrow>
     uploadsOf p (fireTimer cfg e (d, p) s) = uploadsOf p s @ [(d, p)]"
  by (simp add: fireTimer_def timerFunc_uploads_settled)

lemma fold_fire_entry:
  "map_of (timers (fold (fireTimer cfg e) xs s)) p =
     (if p \<in> snd ` set xs then Some Fired else map_of (timers s) p)"
  by (induction xs arbitrary: s) (auto simp: fireTimer_timers update_conv')

lemma fold_fire_keys:
  "distinct (map fst (timers s)) \<Longrightarrow>
     distinct (map fst (timers (fold (fireTimer cfg e) xs s)))"
  by (induction xs arbitrary: s) (simp_all add: fireTimer_timers distinct_update)

lemma fold_fire_uploads_other:
  "p \<notin> snd ` set xs \<Longrightarrow> uploadsOf p (fold (fireTimer cfg e) xs s) = uploadsOf p s"
  by (induction xs arbitrary: s) (auto simp: fireTimer_uploads_other)

lemma fold_fire_uploads_once:
  assumes "distinct (map snd xs)" and "(d, p) \<in> set xs"
    and "stat e d p = Some False" and "\<not> checkIgnore (patternsToIgnore cfg) p"
  shows "uploadsOf p (fold (fireTimer cfg e) xs s) = uploadsOf p s @ [(d, p)]"
  using assms(1,2)
proof (induction xs arbitrary: s)
  case Nil
  then show ?case by simp
next
  case (Cons x xs)
  show ?case
  proof (cases "x = (d, p)")
    case True
    with Cons.prems have "p \<notin> snd ` set xs" by auto
    then have "uploadsOf p (fold (fireTimer cfg e) xs (fireTimer cfg e (d, p) s)) =
        uploadsOf p (fireTimer cfg e (d, p) s)"
      by (rule fold_fire_uploads_other)
    with True assms(3,4) show ?thesis
      by (simp add: fireTimer_uploads_settled)
  next
    case False
    with Cons.prems have in_rest: "(d, p) \<in> set xs" and dist: "distinct (map snd xs)"
      by auto
    from in_rest have "p \<in> snd ` set xs" by force
    with Cons.prems(1) have "snd x \<noteq> p" by auto
    then have "uploadsOf p (fireTimer cfg e x s) = uploadsOf p s"
      by (rule fireTimer_uploads_other)
    with Cons.IH[OF dist in_rest, of "fireTimer cfg e x s"] show ?thesis by simp
  qed
qed

lemma dueTimers_set:
  "(d, q) \<in> set (dueTimers t ts) \<longleftrightarrow> (q, Armed d) \<in> set ts \<and> d \<le> t"
  by (induction t ts rule: dueTimers.induct) auto

lemma dueTimers_keys: "snd ` set (dueTimers t ts) \<subseteq> fst ` set ts"
  by (induction t ts rule: dueTimers.induct) auto

lemma dueTimers_distinct:
  "distinct (map fst ts) \<Longrightarrow> distinct (map snd (dueTimers t ts))"
proof (induction t ts rule: dueTimers.induct)
  case (2 t p d ts)
  then show ?case using dueTimers_keys[of t ts] by auto
qed simp_all

lemma sorted_due_distinct:
  "distinct (map snd (sort_key fst xs)) = distinct (map snd xs)"
  by (simp add: distinct_map)

lemma due_iff:
  assumes "distinct (map fst (timers s))"
  shows "p \<in> snd ` set (sort_key fst (dueTimers t (timers s))) \<longleftrightarrow>
         (\<exists>d. map_of (timers s) p = Some (Armed d) \<and> d \<le> t)"
proof -
  have "p \<in> snd ` set (sort_key fst (dueTimers t (timers s))) \<longleftrightarrow>
        (\<exists>d. (d, p) \<in> set (dueTimers t (timers s)))"
    by force
  also have "\<dots> \<longleftrightarrow> (\<exists>d. (p, Armed d) \<in> set (timers s) \<and> d \<le> t)"
    by (simp only: dueTimers_set)
  also have "\<dots> \<longleftrightarrow> (\<exists>d. map_of (timers s) p = Some (Armed d) \<and> d \<le> t)"
    using assms by simp
  finally show ?thesis .
qed

lemma advance_now [simp]: "now (advance cfg e t s) = t"
  by (simp add: advance_def)

lemma advance_keys:
  "distinct (map fst (timers s)) \<Longrightarrow> distinct (map fst (timers (advance cfg e t s)))"
  by (simp add: advance_def fold_fire_keys)

lemma advance_not_due:
  assumes "distinct (map fst (timers s))"
    and "\<not> (\<exists>d. map_of (timers s) p = Some (Armed d) \<and> d \<le> t)"
  shows "map_of (timers (advance cfg e t s)) p = map_of (timers s) p"
    and "uploadsOf p (advance cfg e t s) = uploadsOf p s"
proof -
  from assms have nd: "p \<notin> snd ` set (sort_key fst (dueTimers t (timers s)))"
    by (simp only: due_iff not_False_eq_True)
  show "map_of (timers (advance cfg e t s)) p = map_of (timers s) p"
    using nd by (simp add: advance_def fold_fire_entry)
  show "uploadsOf p (advance cfg e t s) = uploadsOf p s"
    using nd by (simp add: advance_def fold_fire_uploads_other)
qed

lemma advance_due_entry:
  assumes "distinct (map fst (timers s))"
    and "map_of (timers s) p = Some (Armed d)" and "d \<le> t"
  shows "map_of (timers (advance cfg e t s)) p = Some Fired"
proof -
  from assms(2,3) have "\<exists>d. map_of (timers s) p = Some (Armed d) \<and> d \<le> t"
    by blast
  then have "p \<in> snd ` set (sort_key fst (dueTimers t (timers s)))"
    by (simp only: due_iff[OF assms(1)])
  then show ?thesis
    by (simp add: advance_def fold_fire_entry)
qed

lemma advance_due_upload:
  assumes "distinct (map fst (timers s))"
    and "map_of (timers s) p = Some (Armed d)" and "d \<le> t"
    and "stat e d p = Some False" and "\<not> checkIgnore (patternsToIgnore cfg) p"
  shows "uploadsOf p (advance cfg e t s) = uploadsOf p s @ [(d, p)]"
proof -
  from assms(2) have "(p, Armed d) \<in> set (timers s)"
    by (rule map_of_SomeD)
  with assms(3) have mem: "(d, p) \<in> set (sort_key fst (dueTimers t (timers s)))"
    by (simp add: dueTimers_set)
  have "distinct (map snd (dueTimers t (timers s)))"
    using assms(1) by (rule dueTimers_distinct)
  then have dist: "distinct (map snd (sort_key fst (dueTimers t (timers s))))"
    by (simp only: sorted_due_distinct)
  show ?thesis
    using fold_fire_uploads_once[OF dist mem assms(4,5), of s]
    by (simp add: advance_def)
qed

section \<open>Debouncing\<close>

lemma handleFileChange_write_armed:
  assumes "map_of (timers s) (Name ev) = Some (Armed d)"
    and "Op ev = Write \<or> Op ev = Create"
  shows "handleFileChange cfg ev s =
           s\<lparr>timers := AList.update (Name ev) (Armed (now s + eventDelay cfg)) (timers s)\<rparr>"
  using assms ops_distinct by (auto simp: handleFileChange_def Reset_def)

lemma handleFileChange_write_absent:
  assumes "map_of (timers s) (Name ev) = None"
    and "Op ev = Write \<or> Op ev = Create"
  shows "handleFileChange cfg ev s =
           s\<lparr>timers := AList.update (Name ev) (Armed (now s + eventDelay cfg)) (timers s)\<rparr>"
  using assms ops_distinct by (auto simp: handleFileChange_def AfterFunc_def)

lemma handleFileChange_expired:
  assumes "map_of (timers s) (Name ev) = Some Fired \<or> map_of (timers s) (Name ev) = Some Stopped"
  shows "handleFileChange cfg ev s = s"
  using assms by (auto simp: handleFileChange_def update_triv)

lemma handleFileChange_keeps_entries:
  "map_of (timers s) q \<noteq> None \<Longrightarrow> map_of (timers (handleFileChange cfg ev s)) q \<noteq> None"
  by (auto simp: handleFileChange_def forget_frame update_conv'
      split: option.split prod.split)

lemma handleFileChange_queue: "queue (handleFileChange cfg ev s) = queue s"
  by (simp add: handleFileChange_def forget_frame
      split: option.split prod.split)

lemma handleFileChange_uploads: "uploadsOf p (handleFileChange cfg ev s) = uploadsOf p s"
  by (simp add: uploadsOf_def handleFileChange_queue)

lemma handleFileChange_keys:
  "distinct (map fst (timers s)) \<Longrightarrow> distinct (map fst (timers (handleFileChange cfg ev s)))"
  by (simp add: handleFileChange_def forget_frame distinct_update
      split: option.split prod.split)

lemma handleFileChange_other_entry:
  "Name ev \<noteq> p \<Longrightarrow> map_of (timers (handleFileChange cfg ev s)) p = map_of (timers s) p"
  by (simp add: handleFileChange_def forget_frame update_conv'
      split: option.split prod.split)

lemma lastTime_Cons_same [simp]:
  "Name ev = p \<Longrightarrow> lastTime p t0 ((t, ev) # evs) = lastTime p t evs"
  by (simp add: lastTime_def)

lemma lastTime_Cons_other [simp]:
  "Name ev \<noteq> p \<Longrightarrow> lastTime p t0 ((t, ev) # evs) = lastTime p t0 evs"
  by (simp add: lastTime_def)

lemma lastTime_Nil [simp]: "lastTime p t0 [] = t0"
  by (simp add: lastTime_def)

lemma burst_keeps_timer:
  assumes "burst (eventDelay cfg) p t0 evs"
    and "map_of (timers s) p = Some (Armed (t0 + eventDelay cfg))"
    and "distinct (map fst (timers s))"
  shows "map_of (timers (run cfg e evs s)) p =
           Some (Armed (lastTime p t0 evs + eventDelay cfg)) \<and>
         distinct (map fst (timers (run cfg e evs s))) \<and>
         uploadsOf p (run cfg e evs s) = uploadsOf p s"
  using assms
proof (induction evs arbitrary: s t0)
  case Nil
  then show ?case by simp
next
  case (Cons x evs)
  obtain t ev where x: "x = (t, ev)" by (cases x)
  from Cons.prems(1) x have t: "t < t0 + eventDelay cfg"
    by (simp split: if_splits)
  let ?s1 = "advance cfg e t s"
  let ?s2 = "handleFileChange cfg ev ?s1"
  have nd: "\<not> (\<exists>d. map_of (timers s) p = Some (Armed d) \<and> d \<le> t)"
    using Cons.prems(2) t by simp
  have e1: "map_of (timers ?s1) p = Some (Armed (t0 + eventDelay cfg))"
    using advance_not_due(1)[OF Cons.prems(3) nd] Cons.prems(2) by simp
  have u1: "uploadsOf p ?s1 = uploadsOf p s"
    using advance_not_due(2)[OF Cons.prems(3) nd] .
  have d1: "distinct (map fst (timers ?s1))"
    using Cons.prems(3) by (rule advance_keys)
  have d2: "distinct (map fst (timers ?s2))"
    using d1 by (rule handleFileChange_keys)
  have u2: "uploadsOf p ?s2 = uploadsOf p s"
    using u1 by (simp add: handleFileChange_uploads)
  show ?case
  proof (cases "Name ev = p")
    case True
    with Cons.prems(1) x have op: "Op ev = Write \<or> Op ev = Create"
      and rest: "burst (eventDelay cfg) p t evs"
      by simp_all
    have s2: "?s2 = ?s1\<lparr>timers := AList.update p (Armed (t + eventDelay cfg)) (timers ?s1)\<rparr>"
      using handleFileChange_write_armed[of ?s1 ev "t0 + eventDelay cfg" cfg] e1 True op
      by simp
    have e2: "map_of (timers ?s2) p = Some (Armed (t + eventDelay cfg))"
      unfolding s2 by (simp add: update_conv')
    from Cons.IH[OF rest e2 d2] u2 x True show ?thesis by simp
  next
    case False
    with Cons.prems(1) x have rest: "burst (eventDelay cfg) p t0 evs"
      by simp
    have e2: "map_of (timers ?s2) p = Some (Armed (t0 + eventDelay cfg))"
      using e1 False by (simp add: handleFileChange_other_entry)
    from Cons.IH[OF rest e2 d2] u2 x False show ?thesis by simp
  qed
qed

text \<open>
  C2, as amended. Let the timer of a path \<open>p\<close> be neither expired nor cancelled when a
  burst starts (the map has no entry for \<open>p\<close>, or the entry is still pending). Then
  every burst of one or more write or create notifications for \<open>p\<close>, each less than
  \<open>eventDelay\<close> after the one before, with notifications for other paths arriving in
  between or not, leads to exactly one upload signal for \<open>p\<close>, \<open>eventDelay\<close> after the
  last notification of the burst, provided that at that moment \<open>p\<close> exists, is not a
  directory and matches no ignore pattern. (The association list that stands for the
  timer map has one entry per path, as a map has; \<open>T\<close> is any time from the moment of
  the upload on.)
\<close>

theorem C2_debounce:
  assumes "Name ev = p" and "Op ev = Write \<or> Op ev = Create"
    and "burst (eventDelay cfg) p t evs"
    and "distinct (map fst (timers s))"
    and "notExpired p t s"
    and "stat e (lastTime p t evs + eventDelay cfg) p = Some False"
    and "\<not> checkIgnore (patternsToIgnore cfg) p"
    and "lastTime p t evs + eventDelay cfg \<le> T"
  shows "uploadsOf p (advance cfg e T (run cfg e ((t, ev) # evs) s)) =
           uploadsOf p s @ [(lastTime p t evs + eventDelay cfg, p)]"
proof -
  let ?s1 = "advance cfg e t s"
  let ?s2 = "handleFileChange cfg ev ?s1"
  let ?s3 = "run cfg e evs ?s2"
  have nd: "\<not> (\<exists>d. map_of (timers s) p = Some (Armed d) \<and> d \<le> t)"
    using assms(5) by (auto simp: notExpired_def)
  have e1: "map_of (timers ?s1) p = map_of (timers s) p"
    using advance_not_due(1)[OF assms(4) nd] .
  have u1: "uploadsOf p ?s1 = uploadsOf p s"
    using advance_not_due(2)[OF assms(4) nd] .
  have d1: "distinct (map fst (timers ?s1))"
    using assms(4) by (rule advance_keys)
  have live: "map_of (timers ?s1) p = None \<or> (\<exists>d. map_of (timers ?s1) p = Some (Armed d))"
    using assms(5) unfolding e1 notExpired_def
    by (auto split: option.splits timer.splits)
  have s2: "?s2 = ?s1\<lparr>timers := AList.update p (Armed (t + eventDelay cfg)) (timers ?s1)\<rparr>"
    using live handleFileChange_write_armed[of ?s1 ev _ cfg]
      handleFileChange_write_absent[of ?s1 ev cfg] assms(1,2)
    by auto
  have e2: "map_of (timers ?s2) p = Some (Armed (t + eventDelay cfg))"
    unfolding s2 by (simp add: update_conv')
  have d2: "distinct (map fst (timers ?s2))"
    unfolding s2 using d1 by (simp add: distinct_update)
  have u2: "uploadsOf p ?s2 = uploadsOf p s"
    unfolding s2 using u1 by simp
  from burst_keeps_timer[OF assms(3) e2 d2, of e]
  have e3: "map_of (timers ?s3) p = Some (Armed (lastTime p t evs + eventDelay cfg))"
    and d3: "distinct (map fst (timers ?s3))"
    and u3: "uploadsOf p ?s3 = uploadsOf p ?s2"
    by simp_all
  have "uploadsOf p (advance cfg e T ?s3) =
      uploadsOf p ?s3 @ [(lastTime p t evs + eventDelay cfg, p)]"
    using d3 e3 assms(8,6,7) by (rule advance_due_upload)
  with u3 u2 show ?thesis by simp
qed


theorem C2_witness:
  "uploadsOf ''/w/a.jpg'' (advance cfg0 env0 100 (run cfg0 env0
      [(0, written ''/w/a.jpg''), (2, written ''/w/a.jpg''), (3, written ''/w/b.jpg''),
       (4, written ''/w/a.jpg'')] s0)) =
     [(7, ''/w/a.jpg'')]"
  using C2_debounce [of "written ''/w/a.jpg''" "''/w/a.jpg''" cfg0 0
      "[(2, written ''/w/a.jpg''), (3, written ''/w/b.jpg''), (4, written ''/w/a.jpg'')]"
      s0 env0 100]
  by (simp add: cfg0_def env0_def s0_def written_def notExpired_def uploadsOf_def lastTime_def Write_def Create_def)

text \<open>
  C2 as the specification states it fails in two ways. After a first notification at time 0 has
  settled (upload at time 3), a burst of two writes at times 10 and 11 finds the
  expired timer in the map and leads to no upload, though the file is there all the
  time. And a burst for a path that no longer exists when its timer fires leads to no
  upload either.
\<close>

theorem C2_counterexample:
  "uploadsOf ''/w/a.jpg'' (advance cfg0 env0 5 (run cfg0 env0 [(0, written ''/w/a.jpg'')] s0)) =
     [(3, ''/w/a.jpg'')] \<and>
   uploadsOf ''/w/a.jpg'' (advance cfg0 env0 100 (run cfg0 env0
      [(10, written ''/w/a.jpg''), (11, written ''/w/a.jpg'')]
      (advance cfg0 env0 5 (run cfg0 env0 [(0, written ''/w/a.jpg'')] s0)))) =
     [(3, ''/w/a.jpg'')] \<and>
   uploadsOf ''/w/a.jpg'' (advance cfg0 (env0\<lparr>stat := (\<lambda>t p. None)\<rparr>) 100
      (run cfg0 (env0\<lparr>stat := (\<lambda>t p. None)\<rparr>)
         [(0, written ''/w/a.jpg''), (1, written ''/w/a.jpg'')] s0)) = []"
  by (simp add: cfg0_def env0_def s0_def written_def advance_def fireTimer_def
      timerFunc_def handleFileChange_def EnqueueUpload_def AfterFunc_def Reset_def
      Write_def Remove_def Rename_def uploadsOf_def)

lemma expired_stays:
  assumes "distinct (map fst (timers s))"
    and "map_of (timers s) p = Some Fired"
  shows "map_of (timers (run cfg e evs s)) p = Some Fired \<and>
         distinct (map fst (timers (run cfg e evs s))) \<and>
         uploadsOf p (run cfg e evs s) = uploadsOf p s"
  using assms
proof (induction evs arbitrary: s)
  case Nil
  then show ?case by simp
next
  case (Cons x evs)
  obtain t ev where x: "x = (t, ev)" by (cases x)
  let ?s1 = "advance cfg e t s"
  let ?s2 = "handleFileChange cfg ev ?s1"
  have nd: "\<not> (\<exists>d. map_of (timers s) p = Some (Armed d) \<and> d \<le> t)"
    using Cons.prems(2) by simp
  have e1: "map_of (timers ?s1) p = Some Fired"
    using advance_not_due(1)[OF Cons.prems(1) nd] Cons.prems(2) by simp
  have u1: "uploadsOf p ?s1 = uploadsOf p s"
    using advance_not_due(2)[OF Cons.prems(1) nd] .
  have d1: "distinct (map fst (timers ?s1))"
    using Cons.prems(1) by (rule advance_keys)
  have d2: "distinct (map fst (timers ?s2))"
    using d1 by (rule handleFileChange_keys)
  have u2: "uploadsOf p ?s2 = uploadsOf p s"
    using u1 by (simp add: handleFileChange_uploads)
  have e2: "map_of (timers ?s2) p = Some Fired"
  proof (cases "Name ev = p")
    case True
    with e1 have "?s2 = ?s1" by (simp add: handleFileChange_expired)
    with e1 show ?thesis by simp
  next
    case False
    with e1 show ?thesis by (simp add: handleFileChange_other_entry)
  qed
  from Cons.IH[OF d2 e2] u2 x show ?case by simp
qed

text \<open>
  C6, as amended. The timer entry of a path is never removed from the map: a later
  notification for the path keeps the entry of a pending timer, and the firing of the
  timer leaves the entry in the map, expired. After a settle for a path, a later
  notification for the same path changes nothing: no timer is armed, and whatever
  notifications follow, the entry stays expired and no further upload signal is
  emitted for the path.
\<close>

theorem C6_expired_timer_stays:
  assumes "distinct (map fst (timers s))"
    and "map_of (timers s) p = Some (Armed d)" and "d \<le> t"
  shows "map_of (timers (handleFileChange cfg ev s)) p \<noteq> None \<and>
         map_of (timers (advance cfg e t s)) p = Some Fired \<and>
         (Name ev = p \<longrightarrow>
            handleFileChange cfg ev (advance cfg e t s) = advance cfg e t s) \<and>
         map_of (timers (run cfg e evs (advance cfg e t s))) p = Some Fired \<and>
         uploadsOf p (advance cfg e T (run cfg e evs (advance cfg e t s))) =
           uploadsOf p (advance cfg e t s)"
proof -
  let ?s1 = "advance cfg e t s"
  let ?s2 = "run cfg e evs ?s1"
  have k: "map_of (timers (handleFileChange cfg ev s)) p \<noteq> None"
    using assms(2) by (simp add: handleFileChange_keeps_entries)
  have e1: "map_of (timers ?s1) p = Some Fired"
    using assms(1,2,3) by (rule advance_due_entry)
  have d1: "distinct (map fst (timers ?s1))"
    using assms(1) by (rule advance_keys)
  have same: "Name ev = p \<longrightarrow> handleFileChange cfg ev ?s1 = ?s1"
    using e1 by (simp add: handleFileChange_expired)
  from expired_stays[OF d1 e1, of cfg e evs]
  have e2: "map_of (timers ?s2) p = Some Fired"
    and d2: "distinct (map fst (timers ?s2))"
    and u2: "uploadsOf p ?s2 = uploadsOf p ?s1"
    by simp_all
  have nd: "\<not> (\<exists>d. map_of (timers ?s2) p = Some (Armed d) \<and> d \<le> T)"
    using e2 by simp
  have "uploadsOf p (advance cfg e T ?s2) = uploadsOf p ?s2"
    using advance_not_due(2)[OF d2 nd] .
  with k e1 same e2 u2 show ?thesis by simp
qed

theorem C6_witness:
  "map_of (timers (advance cfg0 env0 3 (run cfg0 env0 [(0, written ''/w/a.jpg'')] s0)))
      ''/w/a.jpg'' = Some Fired \<and>
   uploadsOf ''/w/a.jpg'' (advance cfg0 env0 100 (run cfg0 env0 [(10, written ''/w/a.jpg'')]
      (advance cfg0 env0 3 (run cfg0 env0 [(0, written ''/w/a.jpg'')] s0)))) =
     [(3, ''/w/a.jpg'')]"
  using C6_expired_timer_stays [of "run cfg0 env0 [(0, written ''/w/a.jpg'')] s0"
      "''/w/a.jpg''" 3 3 cfg0 "written ''/w/a.jpg''" env0 "[(10, written ''/w/a.jpg'')]" 100]
  by (simp add: cfg0_def env0_def s0_def written_def advance_def fireTimer_def
      timerFunc_def handleFileChange_def EnqueueUpload_def AfterFunc_def Reset_def
      Write_def Remove_def Rename_def uploadsOf_def)

text \<open>
  C6 as the specification states it fails on the smallest run: the write at time 0 settles at time 3
  and the entry stays in the map, expired; the write at time 10 leaves it so, and
  until time 100 the upload of time 3 remains the only one.
\<close>

theorem C6_counterexample:
  "timers (advance cfg0 env0 3 (run cfg0 env0 [(0, written ''/w/a.jpg'')] s0)) =
     [(''/w/a.jpg'', Fired)] \<and>
   timers (run cfg0 env0 [(0, written ''/w/a.jpg''), (10, written ''/w/a.jpg'')] s0) =
     [(''/w/a.jpg'', Fired)] \<and>
   queue (advance cfg0 env0 100
     (run cfg0 env0 [(0, written ''/w/a.jpg''), (10, written ''/w/a.jpg'')] s0)) =
     [(3, ''/w/a.jpg'')]"
  by (simp add: cfg0_def env0_def s0_def written_def advance_def fireTimer_def
      timerFunc_def handleFileChange_def EnqueueUpload_def AfterFunc_def Reset_def
      Write_def Remove_def Rename_def)

end
